theory Spec2Isabelle
  imports Main "HOL-Library.List_Lexorder"
begin

section \<open>Strings\<close>

text \<open>
  A Python \<open>str\<close> is a sequence of Unicode code points: \<open>len\<close> counts code points and
  \<open><\<close> compares lexicographically by code point. A string is therefore a list of
  code points, ordered by the lexicographic order on lists. \<open>ustr\<close> writes an ASCII
  literal.
\<close>

type_synonym pystr = "nat list"

abbreviation ustr :: "string \<Rightarrow> pystr" where
  "ustr s \<equiv> map of_char s"

text \<open>
  \<open>str.isspace\<close> on one character. The regular expression class \<open>\s\<close> on a \<open>str\<close>
  pattern and \<open>str.strip\<close> both use this predicate.
\<close>

definition isspace :: "nat \<Rightarrow> bool" where
  "isspace c \<longleftrightarrow>
     (9 \<le> c \<and> c \<le> 13) \<or> (28 \<le> c \<and> c \<le> 32) \<or> c = 133 \<or> c = 160 \<or> c = 5760 \<or>
     (8192 \<le> c \<and> c \<le> 8202) \<or> c = 8232 \<or> c = 8233 \<or> c = 8239 \<or> c = 8287 \<or> c = 12288"

definition lstrip :: "pystr \<Rightarrow> pystr" where
  "lstrip s = dropWhile isspace s"

definition rstrip :: "pystr \<Rightarrow> pystr" where
  "rstrip s = rev (dropWhile isspace (rev s))"

definition strip :: "pystr \<Rightarrow> pystr" where
  "strip s = rstrip (lstrip s)"

text \<open>\<open>sep.join(xs)\<close>.\<close>

fun join :: "pystr \<Rightarrow> pystr list \<Rightarrow> pystr" where
  "join sep [] = []"
| "join sep [x] = x"
| "join sep (x # y # ys) = x @ sep @ join sep (y # ys)"

text \<open>
  The slice \<open>xs[:k]\<close>: the first \<open>k\<close> elements when \<open>k\<close> is not negative, all but the
  last \<open>-k\<close> elements when it is.
\<close>

definition slice_to :: "int \<Rightarrow> 'a list \<Rightarrow> 'a list" where
  "slice_to k xs = (if 0 \<le> k then take (nat k) xs else take (length xs - nat (- k)) xs)"

text \<open>\<open>d.get(key, default)\<close> on a key that may be absent (\<open>None\<close>); \<open>a or b\<close> on strings.\<close>

definition dict_get :: "'a option \<Rightarrow> 'a \<Rightarrow> 'a" where
  "dict_get field dflt = (case field of None \<Rightarrow> dflt | Some v \<Rightarrow> v)"

definition str_or :: "pystr \<Rightarrow> pystr \<Rightarrow> pystr" where
  "str_or a b = (if a \<noteq> [] then a else b)"

section \<open>Text normalizer: \<open>strip_html\<close>\<close>

text \<open>
  \<open>re.sub(r"\s+", " ", s)\<close>: every maximal run of whitespace is replaced by one space.
\<close>

function re_sub_spaces :: "pystr \<Rightarrow> pystr" where
  "re_sub_spaces [] = []"
| "re_sub_spaces (c # cs) =
     (if isspace c then 32 # re_sub_spaces (dropWhile isspace cs)
      else c # re_sub_spaces cs)"
  by pat_completeness auto
termination
  by (relation "measure length") (auto simp: length_dropWhile_le less_Suc_eq_le)

text \<open>
  \<open>strip_html(html)\<close>. The argument is a string or \<open>None\<close>. The parameter \<open>get_text\<close>
  stands for the third-party call
  \<open>BeautifulSoup(html, "html.parser").get_text(separator=" ", strip=True)\<close>.
\<close>

definition strip_html :: "(pystr \<Rightarrow> pystr) \<Rightarrow> pystr option \<Rightarrow> pystr" where
  "strip_html get_text html =
     (case html of
        None \<Rightarrow> []
      | Some h \<Rightarrow> if h = [] then [] else strip (re_sub_spaces (get_text h)))"

section \<open>Naive summarizer: \<open>summarize_naive\<close>\<close>

definition is_terminal :: "nat \<Rightarrow> bool" where
  "is_terminal c \<longleftrightarrow> c \<in> set (ustr ''.!?'')"

text \<open>
  \<open>re.split(r"(?<=[.!?])\s+", text)\<close>, scanning from the left with the piece read so
  far in \<open>cur\<close>. A match starts at a whitespace character whose predecessor in the text
  is one of \<open>.\<close>, \<open>!\<close>, \<open>?\<close> and extends over the whole whitespace run; the run is
  dropped and a new piece starts behind it. The predecessor is the last character of
  \<open>cur\<close>: at the start of the text, and directly behind a dropped run, there is no
  terminal predecessor.
\<close>

function re_split_sentences :: "pystr \<Rightarrow> pystr \<Rightarrow> pystr list" where
  "re_split_sentences cur [] = [cur]"
| "re_split_sentences cur (c # cs) =
     (if isspace c \<and> cur \<noteq> [] \<and> is_terminal (last cur)
      then cur # re_split_sentences [] (dropWhile isspace cs)
      else re_split_sentences (cur @ [c]) cs)"
  by pat_completeness auto
termination
  by (relation "measure (\<lambda>(cur, s). length s)") (auto simp: length_dropWhile_le less_Suc_eq_le)

definition summarize_naive :: "pystr \<Rightarrow> int \<Rightarrow> int \<Rightarrow> pystr" where
  "summarize_naive text max_sentences max_chars =
     (if text = [] then []
      else
        let sentences = re_split_sentences [] text;
            summary = join (ustr '' '') (slice_to max_sentences sentences)
        in if int (length summary) > max_chars
           then rstrip (slice_to (max_chars - 1) summary) @ ustr ''...''
           else summary)"

text \<open>The call \<open>summarize_naive(text)\<close> with the default arguments.\<close>

definition summarize_naive_default :: "pystr \<Rightarrow> pystr" where
  "summarize_naive_default text = summarize_naive text 2 300"

section \<open>Exceptions and the external summarizer: \<open>summarize_with_g4f\<close>\<close>

text \<open>
  Exceptions are values. All of them are instances of \<open>Exception\<close>, the class the
  handlers of the program catch.
\<close>

datatype exception = OverflowError | ParserError | ImportError | ServiceError

text \<open>
  The third-party module \<open>g4f\<close>: \<open>import g4f\<close> raises or yields the module, and
  \<open>str(g4f.ChatCompletion.create(...))\<close> raises or yields a string. The module is
  represented by that function of the user message; the model name, the system message
  and \<open>stream=False\<close> are constants of the call.
\<close>

type_synonym g4f_module = "pystr \<Rightarrow> exception + pystr"

definition user_prompt :: "pystr \<Rightarrow> pystr" where
  "user_prompt text =
     [1055, 1077, 1088, 1077, 1089, 1082, 1072, 1078, 1080, 32, 1085, 1077, 1081, 1090,
      1088, 1072, 1083, 1100, 1085, 1086, 32, 1080, 32, 1082, 1086, 1088, 1086, 1090,
      1082, 1086, 58, 32] @ text"

definition summarize_with_g4f :: "exception + g4f_module \<Rightarrow> pystr \<Rightarrow> pystr" where
  "summarize_with_g4f import_g4f text =
     (case import_g4f of
        Inl e \<Rightarrow> summarize_naive_default text
      | Inr g4f \<Rightarrow>
          (case g4f (user_prompt text) of
             Inl e \<Rightarrow> summarize_naive_default text
           | Inr response \<Rightarrow> strip response))"

section \<open>Date parser: \<open>parse_datetime\<close>\<close>

text \<open>
  A \<open>datetime\<close> holds a wall-clock time, counted in microseconds since
  0001-01-01T00:00:00, and the UTC offset of its \<open>tzinfo\<close> in microseconds (\<open>None\<close> for
  a naive value). The representable wall-clock times end at
  9999-12-31T23:59:59.999999, which is day number 3652059.
\<close>

record datetime =
  ticks :: int
  tzinfo :: "int option"

definition max_ticks :: int where
  "max_ticks = 3652059 * 86400000000 - 1"

text \<open>\<open>timedelta(days=d)\<close> and \<open>dt - delta\<close>, with the range checks that raise.\<close>

definition timedelta_days :: "int \<Rightarrow> exception + int" where
  "timedelta_days d =
     (if - 999999999 \<le> d \<and> d \<le> 999999999 then Inr (d * 86400000000)
      else Inl OverflowError)"

definition dt_sub :: "datetime \<Rightarrow> int \<Rightarrow> exception + datetime" where
  "dt_sub dt delta =
     (let t = ticks dt - delta
      in if 0 \<le> t \<and> t \<le> max_ticks then Inr (dt\<lparr>ticks := t\<rparr>) else Inl OverflowError)"

text \<open>
  \<open>dt.astimezone(timezone.utc)\<close> for an aware value with offset \<open>off\<close>:
  \<open>(dt - off).replace(tzinfo=utc)\<close>.
\<close>

definition astimezone_utc :: "datetime \<Rightarrow> int \<Rightarrow> exception + datetime" where
  "astimezone_utc dt off =
     (case dt_sub dt off of
        Inl e \<Rightarrow> Inl e
      | Inr u \<Rightarrow> Inr (u\<lparr>tzinfo := Some 0\<rparr>))"

text \<open>
  The instant an aware value denotes, and the comparison \<open>a < b\<close> of two aware values.
\<close>

definition utc_instant :: "datetime \<Rightarrow> int" where
  "utc_instant dt = ticks dt - (case tzinfo dt of None \<Rightarrow> 0 | Some off \<Rightarrow> off)"

definition dt_less :: "datetime \<Rightarrow> datetime \<Rightarrow> bool" where
  "dt_less a b \<longleftrightarrow> utc_instant a < utc_instant b"

text \<open>
  \<open>parse_datetime(dt_str)\<close>. The parameter \<open>dtparse\<close> stands for the third-party call
  \<open>dateutil.parser.parse\<close>, which raises or yields a \<open>datetime\<close>. Every exception
  raised in the \<open>try\<close> block, by the parser or by \<open>astimezone\<close>, gives \<open>None\<close>.
\<close>

definition parse_datetime :: "(pystr \<Rightarrow> exception + datetime) \<Rightarrow> pystr \<Rightarrow> datetime option" where
  "parse_datetime dtparse dt_str =
     (if dt_str = [] then None
      else
        case dtparse dt_str of
          Inl e \<Rightarrow> None
        | Inr dt \<Rightarrow>
            (case tzinfo dt of
               None \<Rightarrow> Some (dt\<lparr>tzinfo := Some 0\<rparr>)
             | Some off \<Rightarrow>
                 (case astimezone_utc dt off of
                    Inl e \<Rightarrow> None
                  | Inr u \<Rightarrow> Some u)))"

section \<open>\<open>datetime.isoformat\<close>\<close>

text \<open>\<open>"%d" % n\<close> and \<open>"%0wd" % n\<close> for a natural number.\<close>

fun decimal :: "nat \<Rightarrow> pystr" where
  "decimal n = (if n < 10 then [48 + n] else decimal (n div 10) @ [48 + n mod 10])"

declare decimal.simps [simp del]

definition zpad :: "nat \<Rightarrow> nat \<Rightarrow> pystr" where
  "zpad w n = replicate (w - length (decimal n)) 48 @ decimal n"

text \<open>The proleptic Gregorian calendar: from a day number to year, month and day.\<close>

definition days_before_month :: "int list" where
  "days_before_month = [- 1, 0, 31, 59, 90, 120, 151, 181, 212, 243, 273, 304, 334]"

definition days_in_month :: "int list" where
  "days_in_month = [- 1, 31, 28, 31, 30, 31, 30, 31, 31, 30, 31, 30, 31]"

definition ord2ymd :: "int \<Rightarrow> int \<times> int \<times> int" where
  "ord2ymd ordinal =
     (let n0 = ordinal - 1;
          n400 = n0 div 146097; r400 = n0 mod 146097;
          n100 = r400 div 36524; r100 = r400 mod 36524;
          n4 = r100 div 1461; r4 = r100 mod 1461;
          n1 = r4 div 365; n = r4 mod 365;
          year = n400 * 400 + 1 + n100 * 100 + n4 * 4 + n1
      in if n1 = 4 \<or> n100 = 4 then (year - 1, 12, 31)
         else
           let leapyear = (n1 = 3 \<and> (n4 \<noteq> 24 \<or> n100 = 3));
               month = (n + 50) div 32;
               preceding = days_before_month ! nat month
                           + (if month > 2 \<and> leapyear then 1 else 0)
           in if preceding > n
              then (year, month - 1,
                    n - (preceding - (days_in_month ! nat (month - 1)
                                      + (if month - 1 = 2 \<and> leapyear then 1 else 0))) + 1)
              else (year, month, n - preceding + 1))"

definition format_offset :: "int option \<Rightarrow> pystr" where
  "format_offset tz =
     (case tz of
        None \<Rightarrow> []
      | Some off \<Rightarrow>
          let sign = (if off < 0 then ustr ''-'' else ustr ''+'');
              a = \<bar>off\<bar>;
              hh = a div 3600000000; r = a mod 3600000000;
              mm = r div 60000000; ss = r mod 60000000
          in sign @ zpad 2 (nat hh) @ ustr '':'' @ zpad 2 (nat mm)
             @ (if ss \<noteq> 0
                then ustr '':'' @ zpad 2 (nat (ss div 1000000))
                     @ (if ss mod 1000000 \<noteq> 0
                        then ustr ''.'' @ zpad 6 (nat (ss mod 1000000)) else [])
                else []))"

definition isoformat :: "datetime \<Rightarrow> pystr" where
  "isoformat dt =
     (let t = ticks dt;
          r = t mod 86400000000;
          (y, m, d) = ord2ymd (t div 86400000000 + 1);
          us = r mod 1000000
      in zpad 4 (nat y) @ ustr ''-'' @ zpad 2 (nat m) @ ustr ''-'' @ zpad 2 (nat d)
         @ ustr ''T'' @ zpad 2 (nat (r div 3600000000))
         @ ustr '':'' @ zpad 2 (nat (r div 60000000 mod 60))
         @ ustr '':'' @ zpad 2 (nat (r div 1000000 mod 60))
         @ (if us \<noteq> 0 then ustr ''.'' @ zpad 6 (nat us) else [])
         @ format_offset (tzinfo dt))"

section \<open>Feed aggregator: \<open>fetch_news\<close>\<close>

text \<open>
  The module constant \<open>FEEDS\<close>, a dictionary in insertion order: category, then the
  list of (source name, URL).
\<close>

definition FEEDS :: "(pystr \<times> (pystr \<times> pystr) list) list" where
  "FEEDS =
    [([1052, 1072, 1088, 1082, 1077, 1090, 1080, 1085, 1075],
       [(ustr ''Marketing Dive'',
         ustr ''https://www.marketingdive.com/feeds/news/''),
        (ustr ''HubSpot Blog'',
         ustr ''https://blog.hubspot.com/marketing/rss.xml'')]),
     ([1058, 1077, 1093, 1085, 1086, 1083, 1086, 1075, 1080, 1080],
       [(ustr ''TechCrunch'',
         ustr ''http://feeds.feedburner.com/Techcrunch/''),
        (ustr ''The Verge'',
         ustr ''https://www.theverge.com/rss/index.xml'')]),
     ([1056, 1077, 1082, 1083, 1072, 1084, 1072],
       [(ustr ''Adweek'',
         ustr ''https://www.adweek.com/feed/''),
        (ustr ''Campaign US'',
         ustr ''https://www.campaignlive.com/us/rss'')]),
     ([1048, 1089, 1082, 1091, 1089, 1089, 1090, 1074, 1077, 1085, 1085, 1099, 1081, 32,
       1080, 1085, 1090, 1077, 1083, 1083, 1077, 1082, 1090],
       [([86, 101, 110, 116, 117, 114, 101, 66, 101, 97, 116, 32, 8211, 32, 65, 73],
         ustr ''https://venturebeat.com/category/ai/feed/''),
        (ustr ''The Decoder'',
         ustr ''https://the-decoder.com/feed/'')]),
     ([1057, 1086, 1094, 1080, 1072, 1083, 1100, 1085, 1099, 1077, 32, 1089, 1077, 1090,
       1080],
       [(ustr ''Social Media Today'',
         ustr ''https://www.socialmediatoday.com/.rss/full/''),
        ([77, 97, 115, 104, 97, 98, 108, 101, 32, 8211, 32, 83, 111, 99, 105, 97, 108, 32,
          77, 101, 100, 105, 97],
         ustr ''https://mashable.com/feeds/social-media/'')])]"

text \<open>
  A feed entry: each field is the value stored under that key, \<open>None\<close> when the key is
  absent.
\<close>

record raw_entry =
  e_title :: "pystr option"
  e_summary :: "pystr option"
  e_description :: "pystr option"
  e_published :: "pystr option"
  e_updated :: "pystr option"
  e_link :: "pystr option"

record digest_item =
  title :: pystr
  summary :: pystr
  date :: pystr
  source :: pystr
  link :: pystr
  category :: pystr

text \<open>
  What the program reads from outside: the clock (\<open>datetime.now(timezone.utc)\<close>, as
  microseconds of UTC wall-clock time), the entries \<open>feedparser.parse(url).entries\<close>,
  the HTML parser, the date parser, \<open>hashlib.sha256(s.encode()).hexdigest()\<close>, and the
  outcome of \<open>import g4f\<close> at the \<open>i\<close>-th call of the external summarizer (the service
  may answer every call differently).
\<close>

record world =
  utcnow :: int
  feedparser_parse :: "pystr \<Rightarrow> raw_entry list"
  get_text :: "pystr \<Rightarrow> pystr"
  dtparser_parse :: "pystr \<Rightarrow> exception + datetime"
  sha256_hexdigest :: "pystr \<Rightarrow> pystr"
  import_g4f :: "nat \<Rightarrow> exception + g4f_module"

text \<open>\<open>cutoff = datetime.now(timezone.utc) - timedelta(days=days)\<close>.\<close>

definition compute_cutoff :: "int \<Rightarrow> int \<Rightarrow> exception + datetime" where
  "compute_cutoff now days =
     (case timedelta_days days of
        Inl e \<Rightarrow> Inl e
      | Inr delta \<Rightarrow> dt_sub \<lparr>ticks = now, tzinfo = Some 0\<rparr> delta)"

text \<open>
  The values computed from one entry: \<open>strip_html(entry.get("title", ""))\<close>,
  \<open>strip_html(entry.get("summary", "") or entry.get("description", ""))\<close> and
  \<open>parse_datetime(entry.get("published", "") or entry.get("updated", ""))\<close>.
\<close>

definition entry_title :: "world \<Rightarrow> raw_entry \<Rightarrow> pystr" where
  "entry_title w entry = strip_html (get_text w) (Some (dict_get (e_title entry) []))"

definition entry_desc :: "world \<Rightarrow> raw_entry \<Rightarrow> pystr" where
  "entry_desc w entry =
     strip_html (get_text w)
       (Some (str_or (dict_get (e_summary entry) []) (dict_get (e_description entry) [])))"

definition entry_dt :: "world \<Rightarrow> raw_entry \<Rightarrow> datetime option" where
  "entry_dt w entry =
     parse_datetime (dtparser_parse w)
       (str_or (dict_get (e_published entry) []) (dict_get (e_updated entry) []))"

text \<open>
  The body of the innermost loop for one entry; \<open>None\<close> is \<open>continue\<close>. \<open>calls\<close> counts
  the calls of the external summarizer made so far.
\<close>

definition process_entry ::
  "world \<Rightarrow> datetime \<Rightarrow> bool \<Rightarrow> pystr \<Rightarrow> pystr \<Rightarrow> raw_entry \<Rightarrow> nat \<Rightarrow> digest_item option \<times> nat" where
  "process_entry w cutoff use_g4f category_name source_name entry calls =
     (let title_text = entry_title w entry
      in if title_text = [] then (None, calls)
         else
           let desc = entry_desc w entry;
               dt = entry_dt w entry
           in if (case dt of None \<Rightarrow> False | Some d \<Rightarrow> dt_less d cutoff) then (None, calls)
              else
                let (summary_text, calls') =
                      (if use_g4f then (summarize_with_g4f (import_g4f w calls) desc, Suc calls)
                       else (summarize_naive_default desc, calls))
                in (Some \<lparr>title = title_text,
                          summary = summary_text,
                          date = (case dt of None \<Rightarrow> ustr ''unknown'' | Some d \<Rightarrow> isoformat d),
                          source = source_name,
                          link = dict_get (e_link entry) [],
                          category = category_name\<rparr>,
                    calls'))"

text \<open>The three nested loops, threading \<open>all_news\<close> and the call counter.\<close>

fun entries_loop ::
  "world \<Rightarrow> datetime \<Rightarrow> bool \<Rightarrow> pystr \<Rightarrow> pystr \<Rightarrow> raw_entry list
     \<Rightarrow> digest_item list \<times> nat \<Rightarrow> digest_item list \<times> nat" where
  "entries_loop w cutoff use_g4f category_name source_name [] st = st"
| "entries_loop w cutoff use_g4f category_name source_name (entry # rest) (all_news, calls) =
     (case process_entry w cutoff use_g4f category_name source_name entry calls of
        (None, calls') \<Rightarrow>
          entries_loop w cutoff use_g4f category_name source_name rest (all_news, calls')
      | (Some n, calls') \<Rightarrow>
          entries_loop w cutoff use_g4f category_name source_name rest (all_news @ [n], calls'))"

fun feeds_loop ::
  "world \<Rightarrow> datetime \<Rightarrow> bool \<Rightarrow> pystr \<Rightarrow> (pystr \<times> pystr) list
     \<Rightarrow> digest_item list \<times> nat \<Rightarrow> digest_item list \<times> nat" where
  "feeds_loop w cutoff use_g4f category_name [] st = st"
| "feeds_loop w cutoff use_g4f category_name ((source_name, url) # rest) st =
     feeds_loop w cutoff use_g4f category_name rest
       (entries_loop w cutoff use_g4f category_name source_name (feedparser_parse w url) st)"

fun categories_loop ::
  "world \<Rightarrow> datetime \<Rightarrow> bool \<Rightarrow> (pystr \<times> (pystr \<times> pystr) list) list
     \<Rightarrow> digest_item list \<times> nat \<Rightarrow> digest_item list \<times> nat" where
  "categories_loop w cutoff use_g4f [] st = st"
| "categories_loop w cutoff use_g4f ((category_name, feeds) # rest) st =
     categories_loop w cutoff use_g4f rest (feeds_loop w cutoff use_g4f category_name feeds st)"

definition collect_news :: "world \<Rightarrow> datetime \<Rightarrow> bool \<Rightarrow> digest_item list" where
  "collect_news w cutoff use_g4f = fst (categories_loop w cutoff use_g4f FEEDS ([], 0))"

text \<open>The deduplication loop with its set \<open>seen\<close> and list \<open>unique\<close>.\<close>

definition fingerprint :: "(pystr \<Rightarrow> pystr) \<Rightarrow> digest_item \<Rightarrow> pystr" where
  "fingerprint sha256 n = sha256 (title n @ source n)"

fun dedup_loop ::
  "(pystr \<Rightarrow> pystr) \<Rightarrow> digest_item list \<Rightarrow> pystr set \<Rightarrow> digest_item list \<Rightarrow> digest_item list" where
  "dedup_loop sha256 [] seen unique = unique"
| "dedup_loop sha256 (n # ns) seen unique =
     (let key = fingerprint sha256 n
      in if key \<notin> seen then dedup_loop sha256 ns (insert key seen) (unique @ [n])
         else dedup_loop sha256 ns seen unique)"

text \<open>
  \<open>unique.sort(key=lambda x: x.get("date", ""), reverse=True)\<close>: every item has the
  key \<open>date\<close>; the sort is stable, and with \<open>reverse=True\<close> it sorts the reversed list
  in ascending order and reverses the result.
\<close>

definition sort_by_date_reverse :: "digest_item list \<Rightarrow> digest_item list" where
  "sort_by_date_reverse unique = rev (sort_key date (rev unique))"

definition fetch_news :: "world \<Rightarrow> int \<Rightarrow> int \<Rightarrow> bool \<Rightarrow> exception + digest_item list" where
  "fetch_news w days limit use_g4f =
     (case compute_cutoff (utcnow w) days of
        Inl e \<Rightarrow> Inl e
      | Inr cutoff \<Rightarrow>
          let all_news = collect_news w cutoff use_g4f;
              unique = dedup_loop (sha256_hexdigest w) all_news {} []
          in Inr (slice_to limit (sort_by_date_reverse unique)))"

section \<open>An example run\<close>

text \<open>
  One run of the program, used to evaluate the definitions above. The clock reads
  2024-01-10T00:00:00 UTC. The first feed of \<open>FEEDS\<close> delivers four entries and every
  other feed none. The texts of the entries contain no markup and no character
  references, so the HTML parser returns them as they are. The date parser knows the
  date strings listed in \<open>example_dtparse\<close> and raises on every other string. The digest
  function is one that is injective on the strings of this run, as SHA-256 is. Importing
  \<open>g4f\<close> fails.
\<close>

definition example_entry :: "string \<Rightarrow> string \<Rightarrow> string \<Rightarrow> raw_entry" where
  "example_entry t d p =
     \<lparr>e_title = Some (ustr t), e_summary = Some (ustr d), e_description = None,
      e_published = Some (ustr p), e_updated = None,
      e_link = Some (ustr ''https://example.org/news'')\<rparr>"

definition example_dtparse :: "pystr \<Rightarrow> exception + datetime" where
  "example_dtparse s =
     (if s = ustr ''2024-01-09T00:00:00Z''
      then Inr \<lparr>ticks = 738893 * 86400000000, tzinfo = Some 0\<rparr>
      else if s = ustr ''2023-12-01T00:00:00Z''
      then Inr \<lparr>ticks = 738854 * 86400000000, tzinfo = Some 0\<rparr>
      else if s = ustr ''2024-01-08 10:00''
      then Inr \<lparr>ticks = 738892 * 86400000000 + 36000000000, tzinfo = None\<rparr>
      else if s = ustr ''2024-01-08T12:00:00+02:00''
      then Inr \<lparr>ticks = 738892 * 86400000000 + 43200000000, tzinfo = Some 7200000000\<rparr>
      else if s = ustr ''0001-01-01T00:00:00+05:00''
      then Inr \<lparr>ticks = 0, tzinfo = Some 18000000000\<rparr>
      else Inl ParserError)"

definition example_feed :: "raw_entry list" where
  "example_feed =
     [example_entry ''Title A'' ''Sentence one. Sentence two. Sentence three.''
        ''2024-01-09T00:00:00Z'',
      example_entry ''Title B'' ''No date here.'' ''some day'',
      example_entry ''Title C'' ''Old news.'' ''2023-12-01T00:00:00Z'',
      example_entry ''Title A'' ''Seen before.'' ''2024-01-08 10:00'']"

definition example_world :: world where
  "example_world =
     \<lparr>utcnow = 738894 * 86400000000,
      feedparser_parse =
        (\<lambda>url. if url = ustr ''https://www.marketingdive.com/feeds/news/''
               then example_feed else []),
      get_text = (\<lambda>h. h),
      dtparser_parse = example_dtparse,
      sha256_hexdigest = (\<lambda>s. s),
      import_g4f = (\<lambda>i. Inl ImportError)\<rparr>"

text \<open>The digest items this run produces from the first feed.\<close>

definition example_item :: "string \<Rightarrow> string \<Rightarrow> string \<Rightarrow> digest_item" where
  "example_item t s d =
     \<lparr>title = ustr t, summary = ustr s, date = ustr d,
      source = ustr ''Marketing Dive'',
      link = ustr ''https://example.org/news'',
      category = [1052, 1072, 1088, 1082, 1077, 1090, 1080, 1085, 1075]\<rparr>"

definition example_cutoff :: datetime where
  "example_cutoff = \<lparr>ticks = 738887 * 86400000000, tzinfo = Some 0\<rparr>"


section \<open>Evaluating the example run\<close>

lemma decimal_digit: "n < 10 \<Longrightarrow> decimal n = [48 + n]"
  by (simp add: decimal.simps[of n])
lemma decimal_step: "10 \<le> n \<Longrightarrow> decimal n = decimal (n div 10) @ [48 + n mod 10]"
  by (simp add: decimal.simps[of n])
lemmas iso_eval = isoformat_def ord2ymd_def format_offset_def zpad_def decimal_digit decimal_step
      days_before_month_def days_in_month_def Let_def
lemmas entry_eval = process_entry_def entry_title_def entry_desc_def entry_dt_def strip_html_def strip_def lstrip_def rstrip_def isspace_def
  dict_get_def str_or_def parse_datetime_def example_dtparse_def astimezone_utc_def dt_sub_def
  max_ticks_def dt_less_def utc_instant_def summarize_naive_default_def summarize_naive_def
  slice_to_def is_terminal_def example_entry_def example_world_def example_cutoff_def

lemma ex_cutoff: "compute_cutoff (utcnow example_world) 7 = Inr example_cutoff"
  by (simp add: compute_cutoff_def example_world_def timedelta_days_def dt_sub_def max_ticks_def
      example_cutoff_def)

lemma ex_entry_A:
  "process_entry example_world example_cutoff False c s
     (example_entry ''Title A'' ''Sentence one. Sentence two. Sentence three.'' ''2024-01-09T00:00:00Z'') k
   = (Some ((example_item ''Title A'' ''Sentence one. Sentence two.'' ''2024-01-09T00:00:00+00:00'')
              \<lparr>source := s, category := c\<rparr>), k)"
  by (simp add: entry_eval iso_eval example_item_def)

lemma ex_entry_B:
  "process_entry example_world example_cutoff False c s
     (example_entry ''Title B'' ''No date here.'' ''some day'') k
   = (Some ((example_item ''Title B'' ''No date here.'' ''unknown'')\<lparr>source := s, category := c\<rparr>), k)"
  by (simp add: entry_eval example_item_def)

lemma ex_entry_C:
  "process_entry example_world example_cutoff False c s
     (example_entry ''Title C'' ''Old news.'' ''2023-12-01T00:00:00Z'') k = (None, k)"
  by (simp add: entry_eval)

lemma ex_entry_A2:
  "process_entry example_world example_cutoff False c s
     (example_entry ''Title A'' ''Seen before.'' ''2024-01-08 10:00'') k
   = (Some ((example_item ''Title A'' ''Seen before.'' ''2024-01-08T10:00:00+00:00'')
              \<lparr>source := s, category := c\<rparr>), k)"
  by (simp add: entry_eval iso_eval example_item_def)

lemma ex_feed:
  "feedparser_parse example_world url =
     (if url = ustr ''https://www.marketingdive.com/feeds/news/'' then example_feed else [])"
  by (simp add: example_world_def)

lemma ex_collect:
  "collect_news example_world example_cutoff False =
     [example_item ''Title A'' ''Sentence one. Sentence two.'' ''2024-01-09T00:00:00+00:00'',
      example_item ''Title B'' ''No date here.'' ''unknown'',
      example_item ''Title A'' ''Seen before.'' ''2024-01-08T10:00:00+00:00'']"
  by (simp add: collect_news_def FEEDS_def ex_feed example_feed_def
      ex_entry_A ex_entry_B ex_entry_C ex_entry_A2 example_item_def)

lemma ex_unique:
  "dedup_loop (sha256_hexdigest example_world) (collect_news example_world example_cutoff False) {} [] =
     [example_item ''Title A'' ''Sentence one. Sentence two.'' ''2024-01-09T00:00:00+00:00'',
      example_item ''Title B'' ''No date here.'' ''unknown'']"
  by (simp add: ex_collect) (simp add: example_world_def example_item_def fingerprint_def)

lemma ex_sorted:
  "sort_by_date_reverse
     [example_item ''Title A'' ''Sentence one. Sentence two.'' ''2024-01-09T00:00:00+00:00'',
      example_item ''Title B'' ''No date here.'' ''unknown''] =
     [example_item ''Title B'' ''No date here.'' ''unknown'',
      example_item ''Title A'' ''Sentence one. Sentence two.'' ''2024-01-09T00:00:00+00:00'']"
  by (simp add: sort_by_date_reverse_def example_item_def)

lemma ex_fetch:
  "fetch_news example_world 7 limit False =
     Inr (slice_to limit
       [example_item ''Title B'' ''No date here.'' ''unknown'',
        example_item ''Title A'' ''Sentence one. Sentence two.'' ''2024-01-09T00:00:00+00:00''])"
  by (simp add: fetch_news_def ex_cutoff ex_unique ex_sorted)

section \<open>The loops of \<open>fetch_news\<close>\<close>

lemma process_entry_None_iff:
  "fst (process_entry w cutoff u c s e k) = None \<longleftrightarrow>
     entry_title w e = [] \<or> (\<exists>d. entry_dt w e = Some d \<and> dt_less d cutoff)"
  by (auto simp: process_entry_def Let_def split: option.splits)

lemma process_entry_Some:
  assumes "fst (process_entry w cutoff u c s e k) = Some n"
  shows "title n = entry_title w e \<and> source n = s \<and> category n = c
     \<and> link n = dict_get (e_link e) []
     \<and> date n = (case entry_dt w e of None \<Rightarrow> ustr ''unknown'' | Some d \<Rightarrow> isoformat d)
     \<and> summary n = (if u then summarize_with_g4f (import_g4f w k) (entry_desc w e)
                    else summarize_naive_default (entry_desc w e))"
  using assms by (auto simp: process_entry_def Let_def split: option.splits if_splits)

lemma entries_loop_sound:
  "n \<in> set (fst (entries_loop w cutoff u c s es (acc, k))) \<Longrightarrow>
   n \<in> set acc \<or> (\<exists>e\<in>set es. \<exists>k'. fst (process_entry w cutoff u c s e k') = Some n)"
proof (induction es arbitrary: acc k)
  case Nil
  then show ?case by simp
next
  case (Cons e es)
  obtain r k1 where pe: "process_entry w cutoff u c s e k = (r, k1)"
    by (cases "process_entry w cutoff u c s e k")
  show ?case
  proof (cases r)
    case None
    with Cons pe show ?thesis by auto
  next
    case (Some m)
    with Cons.prems pe have "n \<in> set (fst (entries_loop w cutoff u c s es (acc @ [m], k1)))"
      by simp
    from Cons.IH[OF this] show ?thesis
      using pe Some by (auto intro: exI[of _ k])
  qed
qed

lemma entries_loop_mono:
  "set acc \<subseteq> set (fst (entries_loop w cutoff u c s es (acc, k)))"
proof (induction es arbitrary: acc k)
  case Nil
  then show ?case by simp
next
  case (Cons e es)
  obtain r k1 where pe: "process_entry w cutoff u c s e k = (r, k1)"
    by (cases "process_entry w cutoff u c s e k")
  show ?case
  proof (cases r)
    case None
    with Cons pe show ?thesis by simp
  next
    case (Some m)
    have "set (acc @ [m]) \<subseteq> set (fst (entries_loop w cutoff u c s es (acc @ [m], k1)))"
      by (rule Cons.IH)
    with pe Some show ?thesis by simp
  qed
qed

lemma entries_loop_complete:
  "e \<in> set es \<Longrightarrow> fst (process_entry w cutoff u c s e k0) \<noteq> None \<Longrightarrow>
   \<exists>k' n. fst (process_entry w cutoff u c s e k') = Some n
          \<and> n \<in> set (fst (entries_loop w cutoff u c s es (acc, k)))"
proof (induction es arbitrary: acc k)
  case Nil
  then show ?case by simp
next
  case (Cons x es)
  obtain r k1 where pe: "process_entry w cutoff u c s x k = (r, k1)"
    by (cases "process_entry w cutoff u c s x k")
  show ?case
  proof (cases "e = x")
    case True
    from Cons.prems(2) have "fst (process_entry w cutoff u c s e k) \<noteq> None"
      by (simp add: process_entry_None_iff)
    with True pe obtain m where m: "r = Some m" by auto
    have "m \<in> set (fst (entries_loop w cutoff u c s es (acc @ [m], k1)))"
      using entries_loop_mono[of "acc @ [m]"] by auto
    with True pe m show ?thesis by (auto intro!: exI[of _ k])
  next
    case False
    with Cons.prems have "e \<in> set es" by simp
    from Cons.IH[OF this Cons.prems(2)] show ?thesis
      using pe by (cases r) auto
  qed
qed

lemma feeds_loop_sound:
  "n \<in> set (fst (feeds_loop w cutoff u c fs st)) \<Longrightarrow>
   n \<in> set (fst st) \<or>
   (\<exists>(s, url)\<in>set fs. \<exists>e\<in>set (feedparser_parse w url). \<exists>k'.
       fst (process_entry w cutoff u c s e k') = Some n)"
proof (induction fs arbitrary: st)
  case Nil
  then show ?case by simp
next
  case (Cons f fs)
  obtain s url where f: "f = (s, url)" by (cases f)
  obtain acc k where st: "st = (acc, k)" by (cases st)
  from Cons.prems f
  have "n \<in> set (fst (feeds_loop w cutoff u c fs
            (entries_loop w cutoff u c s (feedparser_parse w url) st)))"
    by simp
  from Cons.IH[OF this] show ?case
    using entries_loop_sound[of n w cutoff u c s "feedparser_parse w url" acc k] f st
    by auto
qed

lemma feeds_loop_mono: "set (fst st) \<subseteq> set (fst (feeds_loop w cutoff u c fs st))"
proof (induction fs arbitrary: st)
  case Nil
  then show ?case by simp
next
  case (Cons f fs)
  obtain s url where f: "f = (s, url)" by (cases f)
  obtain acc k where st: "st = (acc, k)" by (cases st)
  have "set (fst st) \<subseteq> set (fst (entries_loop w cutoff u c s (feedparser_parse w url) st))"
    using entries_loop_mono[of acc w cutoff u c s "feedparser_parse w url" k] st by simp
  also have "\<dots> \<subseteq> set (fst (feeds_loop w cutoff u c fs
                       (entries_loop w cutoff u c s (feedparser_parse w url) st)))"
    by (rule Cons.IH)
  finally show ?case using f by simp
qed

lemma feeds_loop_complete:
  "(s, url) \<in> set fs \<Longrightarrow> e \<in> set (feedparser_parse w url) \<Longrightarrow>
   fst (process_entry w cutoff u c s e k0) \<noteq> None \<Longrightarrow>
   \<exists>k' n. fst (process_entry w cutoff u c s e k') = Some n
          \<and> n \<in> set (fst (feeds_loop w cutoff u c fs st))"
proof (induction fs arbitrary: st)
  case Nil
  then show ?case by simp
next
  case (Cons f fs)
  obtain s' url' where f: "f = (s', url')" by (cases f)
  obtain acc k where st: "st = (acc, k)" by (cases st)
  let ?st' = "entries_loop w cutoff u c s' (feedparser_parse w url') st"
  show ?case
  proof (cases "(s, url) = f")
    case True
    with f have eq: "s' = s" "url' = url" by auto
    from entries_loop_complete[OF Cons.prems(2,3), of acc k]
    obtain k' n where kn: "fst (process_entry w cutoff u c s e k') = Some n"
      "n \<in> set (fst (entries_loop w cutoff u c s (feedparser_parse w url) (acc, k)))"
      by blast
    with feeds_loop_mono[of ?st' w cutoff u c fs] eq st f
    have "n \<in> set (fst (feeds_loop w cutoff u c (f # fs) st))" by auto
    with kn(1) show ?thesis by blast
  next
    case False
    with Cons.prems have "(s, url) \<in> set fs" by simp
    from Cons.IH[OF this Cons.prems(2,3), of ?st'] show ?thesis
      using f by simp
  qed
qed

lemma categories_loop_sound:
  "n \<in> set (fst (categories_loop w cutoff u cs st)) \<Longrightarrow>
   n \<in> set (fst st) \<or>
   (\<exists>(c, fs)\<in>set cs. \<exists>(s, url)\<in>set fs. \<exists>e\<in>set (feedparser_parse w url). \<exists>k'.
       fst (process_entry w cutoff u c s e k') = Some n)"
proof (induction cs arbitrary: st)
  case Nil
  then show ?case by simp
next
  case (Cons x cs)
  obtain c fs where x: "x = (c, fs)" by (cases x)
  from Cons.prems x
  have "n \<in> set (fst (categories_loop w cutoff u cs (feeds_loop w cutoff u c fs st)))"
    by simp
  from Cons.IH[OF this] show ?case
    using feeds_loop_sound[of n w cutoff u c fs st] x by auto
qed

lemma categories_loop_mono: "set (fst st) \<subseteq> set (fst (categories_loop w cutoff u cs st))"
proof (induction cs arbitrary: st)
  case Nil
  then show ?case by simp
next
  case (Cons x cs)
  obtain c fs where x: "x = (c, fs)" by (cases x)
  have "set (fst st) \<subseteq> set (fst (feeds_loop w cutoff u c fs st))"
    by (rule feeds_loop_mono)
  also have "\<dots> \<subseteq> set (fst (categories_loop w cutoff u cs (feeds_loop w cutoff u c fs st)))"
    by (rule Cons.IH)
  finally show ?case using x by simp
qed

lemma categories_loop_complete:
  "(c, fs) \<in> set cs \<Longrightarrow> (s, url) \<in> set fs \<Longrightarrow> e \<in> set (feedparser_parse w url) \<Longrightarrow>
   fst (process_entry w cutoff u c s e k0) \<noteq> None \<Longrightarrow>
   \<exists>k' n. fst (process_entry w cutoff u c s e k') = Some n
          \<and> n \<in> set (fst (categories_loop w cutoff u cs st))"
proof (induction cs arbitrary: st)
  case Nil
  then show ?case by simp
next
  case (Cons x cs)
  obtain c' fs' where x: "x = (c', fs')" by (cases x)
  let ?st' = "feeds_loop w cutoff u c' fs' st"
  show ?case
  proof (cases "(c, fs) = x")
    case True
    with x have eq: "c' = c" "fs' = fs" by auto
    from feeds_loop_complete[OF Cons.prems(2,3,4), of st]
    obtain k' n where kn: "fst (process_entry w cutoff u c s e k') = Some n"
      "n \<in> set (fst (feeds_loop w cutoff u c fs st))"
      by blast
    with categories_loop_mono[of ?st' w cutoff u cs] eq x
    have "n \<in> set (fst (categories_loop w cutoff u (x # cs) st))" by auto
    with kn(1) show ?thesis by blast
  next
    case False
    with Cons.prems have "(c, fs) \<in> set cs" by simp
    from Cons.IH[OF this Cons.prems(2,3,4), of ?st'] show ?thesis
      using x by simp
  qed
qed

lemma collect_news_sound:
  "n \<in> set (collect_news w cutoff u) \<Longrightarrow>
   \<exists>(c, fs)\<in>set FEEDS. \<exists>(s, url)\<in>set fs. \<exists>e\<in>set (feedparser_parse w url). \<exists>k'.
       fst (process_entry w cutoff u c s e k') = Some n"
  using categories_loop_sound[of n w cutoff u FEEDS "([], 0)"]
  by (simp add: collect_news_def)

lemma collect_news_complete:
  "(c, fs) \<in> set FEEDS \<Longrightarrow> (s, url) \<in> set fs \<Longrightarrow> e \<in> set (feedparser_parse w url) \<Longrightarrow>
   fst (process_entry w cutoff u c s e k0) \<noteq> None \<Longrightarrow>
   \<exists>k' n. fst (process_entry w cutoff u c s e k') = Some n \<and> n \<in> set (collect_news w cutoff u)"
  unfolding collect_news_def by (rule categories_loop_complete)

section \<open>Deduplication and sorting\<close>

lemma dedup_loop_subset: "set (dedup_loop sha ns seen unique) \<subseteq> set unique \<union> set ns"
proof (induction ns arbitrary: seen unique)
  case Nil
  then show ?case by simp
next
  case (Cons x ns)
  show ?case
  proof (cases "fingerprint sha x \<in> seen")
    case True
    with Cons.IH[of seen unique] show ?thesis by auto
  next
    case False
    with Cons.IH[of "insert (fingerprint sha x) seen" "unique @ [x]"] show ?thesis by auto
  qed
qed

lemma dedup_loop_distinct:
  "distinct (map (fingerprint sha) unique) \<Longrightarrow> fingerprint sha ` set unique \<subseteq> seen \<Longrightarrow>
   distinct (map (fingerprint sha) (dedup_loop sha ns seen unique))"
proof (induction ns arbitrary: seen unique)
  case Nil
  then show ?case by simp
next
  case (Cons x ns)
  show ?case
  proof (cases "fingerprint sha x \<in> seen")
    case True
    with Cons.IH[OF Cons.prems] show ?thesis by simp
  next
    case False
    have "distinct (map (fingerprint sha) (unique @ [x]))"
      using Cons.prems False by auto
    moreover have "fingerprint sha ` set (unique @ [x]) \<subseteq> insert (fingerprint sha x) seen"
      using Cons.prems by auto
    ultimately have "distinct (map (fingerprint sha)
        (dedup_loop sha ns (insert (fingerprint sha x) seen) (unique @ [x])))"
      by (rule Cons.IH)
    with False show ?thesis by simp
  qed
qed

lemma dedup_loop_first:
  "n \<in> set (dedup_loop sha ns seen unique) \<Longrightarrow>
   n \<in> set unique \<or>
   (fingerprint sha n \<notin> seen \<and> find (\<lambda>m. fingerprint sha m = fingerprint sha n) ns = Some n)"
proof (induction ns arbitrary: seen unique)
  case Nil
  then show ?case by simp
next
  case (Cons x ns)
  show ?case
  proof (cases "fingerprint sha x \<in> seen")
    case True
    with Cons.prems have "n \<in> set (dedup_loop sha ns seen unique)" by simp
    from Cons.IH[OF this] True show ?thesis by auto
  next
    case False
    with Cons.prems
    have "n \<in> set (dedup_loop sha ns (insert (fingerprint sha x) seen) (unique @ [x]))"
      by simp
    from Cons.IH[OF this] False show ?thesis by auto
  qed
qed

lemma find_fingerprint_pair:
  "find (\<lambda>m. fingerprint sha m = fingerprint sha n) ns = Some n \<Longrightarrow>
   find (\<lambda>m. title m = title n \<and> source m = source n) ns = Some n"
  by (induction ns) (auto simp: fingerprint_def split: if_splits)

lemma distinct_fingerprint_pair:
  "distinct (map (fingerprint sha) ns) \<Longrightarrow> distinct (map (\<lambda>n. (title n, source n)) ns)"
proof -
  assume d: "distinct (map (fingerprint sha) ns)"
  have "map (fingerprint sha) ns = map (\<lambda>p. sha (fst p @ snd p)) (map (\<lambda>n. (title n, source n)) ns)"
    by (simp add: fingerprint_def)
  with d show ?thesis by (metis distinct_map)
qed

lemma dedup_loop_drop:
  "fingerprint sha b \<in> seen \<union> fingerprint sha ` set pre \<Longrightarrow>
   dedup_loop sha (pre @ b # post) seen unique = dedup_loop sha (pre @ post) seen unique"
  by (induction pre arbitrary: seen unique) (auto simp: Let_def)

lemma sorted_desc_sort_by_date_reverse:
  "sorted_wrt (\<lambda>a b. date b \<le> date a) (sort_by_date_reverse xs)"
proof -
  have "sorted (map date (sort_key date (rev xs)))" by simp
  then have "sorted_wrt (\<lambda>a b. date a \<le> date b) (sort_key date (rev xs))"
    by (simp add: sorted_map)
  then show ?thesis
    by (simp add: sort_by_date_reverse_def sorted_wrt_rev)
qed

lemma set_sort_by_date_reverse: "set (sort_by_date_reverse xs) = set xs"
  by (simp add: sort_by_date_reverse_def)

lemma distinct_map_sort_by_date_reverse:
  "distinct (map f (sort_by_date_reverse xs)) = distinct (map f xs)"
  by (simp add: sort_by_date_reverse_def distinct_map rev_map[symmetric] del: rev_map)

lemma sorted_wrt_slice_to: "sorted_wrt P xs \<Longrightarrow> sorted_wrt P (slice_to k xs)"
  by (auto simp: slice_to_def intro: sorted_wrt_take)

lemma set_slice_to: "set (slice_to k xs) \<subseteq> set xs"
  by (auto simp: slice_to_def dest: in_set_takeD)

lemma distinct_map_slice_to: "distinct (map f xs) \<Longrightarrow> distinct (map f (slice_to k xs))"
  by (simp add: slice_to_def take_map[symmetric] del: take_map)

section \<open>Slicing, sorting and the result of \<open>fetch_news\<close>\<close>

lemma length_slice_to_le: "0 \<le> k \<Longrightarrow> int (length (slice_to k xs)) \<le> k"
  by (simp add: slice_to_def)

lemma slice_to_0: "slice_to 0 xs = []"
  by (simp add: slice_to_def)

lemma slice_to_is_take: "\<exists>m. slice_to k xs = take m xs"
  by (auto simp: slice_to_def)

lemma slice_to_negative:
  "k < 0 \<Longrightarrow> slice_to k xs = take (length xs - nat (- k)) xs"
  by (simp add: slice_to_def)

lemma fetch_news_Inr:
  "compute_cutoff (utcnow w) days = Inr cutoff \<Longrightarrow>
   fetch_news w days limit use_g4f =
     Inr (slice_to limit (sort_by_date_reverse
            (dedup_loop (sha256_hexdigest w) (collect_news w cutoff use_g4f) {} [])))"
  by (simp add: fetch_news_def)

lemma fetch_news_Inr_cutoff:
  "fetch_news w days limit use_g4f = Inr news \<Longrightarrow> \<exists>cutoff. compute_cutoff (utcnow w) days = Inr cutoff"
  by (cases "compute_cutoff (utcnow w) days") (simp_all add: fetch_news_def)

text \<open>
  C4. For every limit that is not negative, the sequence \<open>fetch_news\<close> returns is no
  longer than the limit, and the limit 0 gives the empty sequence. \<open>fetch_news\<close> does
  return a sequence whenever the cutoff can be computed.
\<close>

theorem fetch_news_length_le_limit:
  assumes "0 \<le> limit" and "compute_cutoff (utcnow w) days = Inr cutoff"
  shows "\<exists>news. fetch_news w days limit use_g4f = Inr news
           \<and> int (length news) \<le> limit \<and> (limit = 0 \<longrightarrow> news = [])"
  using assms by (simp add: fetch_news_Inr length_slice_to_le slice_to_0)

theorem fetch_news_length_le_limit_witness:
  "(0::int) \<le> 1 \<and> compute_cutoff (utcnow example_world) 7 = Inr example_cutoff
   \<and> (\<exists>news. fetch_news example_world 7 1 False = Inr news
          \<and> int (length news) \<le> 1 \<and> ((1::int) = 0 \<longrightarrow> news = []))"
  using fetch_news_length_le_limit [of 1 example_world 7 example_cutoff False]
  by (simp add: ex_cutoff)

text \<open>
  C10. For a negative limit and a deduplicated list of \<open>n\<close> items with \<open>n > |limit|\<close>,
  \<open>fetch_news\<close> returns the first \<open>n - |limit|\<close> items of the sorted list: a sequence that
  is not empty and lacks the last \<open>|limit|\<close> items, neither an empty sequence nor an
  error.
\<close>

theorem fetch_news_negative_limit:
  assumes "limit < 0" and "compute_cutoff (utcnow w) days = Inr cutoff"
    and "sorted_news = sort_by_date_reverse
           (dedup_loop (sha256_hexdigest w) (collect_news w cutoff use_g4f) {} [])"
    and "- limit < int (length sorted_news)"
  shows "fetch_news w days limit use_g4f
           = Inr (take (length sorted_news - nat (- limit)) sorted_news)
         \<and> length (take (length sorted_news - nat (- limit)) sorted_news)
           = length sorted_news - nat (- limit)
         \<and> take (length sorted_news - nat (- limit)) sorted_news \<noteq> []"
proof -
  have "fetch_news w days limit use_g4f = Inr (slice_to limit sorted_news)"
    using assms(2,3) by (simp add: fetch_news_Inr)
  moreover have "slice_to limit sorted_news = take (length sorted_news - nat (- limit)) sorted_news"
    using assms(1) by (rule slice_to_negative)
  moreover have "0 < length sorted_news - nat (- limit)"
    using assms(1,4) by linarith
  ultimately show ?thesis
    by auto
qed

theorem fetch_news_negative_limit_witness:
  "(- 1 :: int) < 0 \<and> compute_cutoff (utcnow example_world) 7 = Inr example_cutoff
   \<and> fetch_news example_world 7 (- 1) False
       = Inr [example_item ''Title B'' ''No date here.'' ''unknown'']"
  using fetch_news_negative_limit [of "- 1" example_world 7 example_cutoff
      "[example_item ''Title B'' ''No date here.'' ''unknown'',
        example_item ''Title A'' ''Sentence one. Sentence two.'' ''2024-01-09T00:00:00+00:00'']"
      False]
  by (simp add: ex_cutoff ex_unique ex_sorted)

section \<open>The order of the result\<close>

lemma hd_decimal: "decimal n \<noteq> [] \<and> 48 \<le> hd (decimal n) \<and> hd (decimal n) \<le> 57"
proof (induction n rule: decimal.induct)
  case (1 n)
  show ?case
  proof (cases "n < 10")
    case True
    then show ?thesis by (simp add: decimal_digit)
  next
    case False
    with 1 show ?thesis by (simp add: decimal_step hd_append)
  qed
qed

lemma hd_zpad: "zpad w n \<noteq> [] \<and> hd (zpad w n) \<le> 57"
  using hd_decimal[of n] by (cases "w - length (decimal n)") (auto simp: zpad_def hd_append)

lemma isoformat_less_unknown: "isoformat dt < ustr ''unknown''"
proof -
  obtain y m d where ymd: "ord2ymd (ticks dt div 86400000000 + 1) = (y, m, d)"
    by (cases "ord2ymd (ticks dt div 86400000000 + 1)") auto
  obtain c cs where z: "zpad 4 (nat y) = c # cs" "c \<le> 57"
    using hd_zpad[of 4 "nat y"] by (cases "zpad 4 (nat y)") auto
  then show ?thesis
    by (simp add: isoformat_def Let_def ymd)
qed

lemma collect_news_date:
  assumes "n \<in> set (collect_news w cutoff u)"
  shows "date n = ustr ''unknown'' \<or> (\<exists>d. date n = isoformat d)"
proof -
  from collect_news_sound[OF assms] obtain c s e k'
    where "fst (process_entry w cutoff u c s e k') = Some n" by blast
  from process_entry_Some[OF this] show ?thesis
    by (cases "entry_dt w e") auto
qed

lemma fetch_news_subset:
  assumes "fetch_news w days limit u = Inr news" and "compute_cutoff (utcnow w) days = Inr cutoff"
  shows "set news \<subseteq> set (collect_news w cutoff u)"
proof -
  have "news = slice_to limit (sort_by_date_reverse
            (dedup_loop (sha256_hexdigest w) (collect_news w cutoff u) {} []))"
    using assms by (simp add: fetch_news_Inr)
  then have "set news \<subseteq> set (sort_by_date_reverse
            (dedup_loop (sha256_hexdigest w) (collect_news w cutoff u) {} []))"
    by (simp add: set_slice_to)
  then have "set news \<subseteq> set (dedup_loop (sha256_hexdigest w) (collect_news w cutoff u) {} [])"
    by (simp add: set_sort_by_date_reverse)
  with dedup_loop_subset[of "sha256_hexdigest w" "collect_news w cutoff u" "{}" "[]"]
  show ?thesis by auto
qed

text \<open>
  C1 (as amended). The sequence \<open>fetch_news\<close> returns is sorted by the \<open>date\<close> string in
  descending order. Every \<open>date\<close> is the sentinel \<open>unknown\<close> or the ISO form of a parsed
  date, and every item whose date is \<open>unknown\<close> comes before all items that have a parsed
  date: an ISO date starts with a digit, which is smaller than the letter \<open>u\<close>.
\<close>

theorem fetch_news_sorted_unknown_first:
  assumes "fetch_news w days limit use_g4f = Inr news"
  shows "sorted_wrt (\<lambda>a b. date b \<le> date a) news
         \<and> (\<forall>a\<in>set news. date a = ustr ''unknown'' \<or> (\<exists>d. date a = isoformat d))
         \<and> (\<forall>i j. i < length news \<and> j < length news
                \<and> date (news ! i) = ustr ''unknown'' \<and> date (news ! j) \<noteq> ustr ''unknown''
              \<longrightarrow> i < j)"
proof -
  obtain cutoff where c: "compute_cutoff (utcnow w) days = Inr cutoff"
    using fetch_news_Inr_cutoff[OF assms] by blast
  have news: "news = slice_to limit (sort_by_date_reverse
            (dedup_loop (sha256_hexdigest w) (collect_news w cutoff use_g4f) {} []))"
    using assms c by (simp add: fetch_news_Inr)
  have srt: "sorted_wrt (\<lambda>a b. date b \<le> date a) news"
    unfolding news by (intro sorted_wrt_slice_to sorted_desc_sort_by_date_reverse)
  have dates: "\<forall>a\<in>set news. date a = ustr ''unknown'' \<or> (\<exists>d. date a = isoformat d)"
    using fetch_news_subset[OF assms c] collect_news_date by blast
  have "i < j" if h: "i < length news" "j < length news"
      "date (news ! i) = ustr ''unknown''" "date (news ! j) \<noteq> ustr ''unknown''" for i j
  proof (rule ccontr)
    assume "\<not> i < j"
    with h have "j < i" by (cases "i = j") auto
    with srt h(1) have "date (news ! i) \<le> date (news ! j)"
      using sorted_wrt_nth_less[of "\<lambda>a b. date b \<le> date a" news j i] by simp
    moreover from dates h(2,4) obtain d where "date (news ! j) = isoformat d"
      by (metis nth_mem)
    ultimately have "ustr ''unknown'' \<le> isoformat d" using h(3) by simp
    with isoformat_less_unknown[of d] show False by simp
  qed
  with srt dates show ?thesis by blast
qed

theorem fetch_news_sorted_unknown_first_witness:
  "fetch_news example_world 7 7 False =
     Inr [example_item ''Title B'' ''No date here.'' ''unknown'',
          example_item ''Title A'' ''Sentence one. Sentence two.'' ''2024-01-09T00:00:00+00:00'']
   \<and> sorted_wrt (\<lambda>a b. date b \<le> date a)
       [example_item ''Title B'' ''No date here.'' ''unknown'',
        example_item ''Title A'' ''Sentence one. Sentence two.'' ''2024-01-09T00:00:00+00:00'']"
  using fetch_news_sorted_unknown_first [of example_world 7 7 False
      "[example_item ''Title B'' ''No date here.'' ''unknown'',
        example_item ''Title A'' ''Sentence one. Sentence two.'' ''2024-01-09T00:00:00+00:00'']"]
  by (simp add: ex_fetch slice_to_def)

text \<open>
  C1 as stated fails: in the example run the item without a parsed date is returned
  first, before the item dated 2024-01-09.
\<close>

theorem fetch_news_unknown_last_counterexample:
  "fetch_news example_world 7 7 False =
     Inr [example_item ''Title B'' ''No date here.'' ''unknown'',
          example_item ''Title A'' ''Sentence one. Sentence two.'' ''2024-01-09T00:00:00+00:00'']
   \<and> date (example_item ''Title B'' ''No date here.'' ''unknown'') = ustr ''unknown''
   \<and> date (example_item ''Title A'' ''Sentence one. Sentence two.'' ''2024-01-09T00:00:00+00:00'')
       = isoformat \<lparr>ticks = 738893 * 86400000000, tzinfo = Some 0\<rparr>
   \<and> entry_dt example_world (example_feed ! 0) = Some \<lparr>ticks = 738893 * 86400000000, tzinfo = Some 0\<rparr>
   \<and> entry_dt example_world (example_feed ! 1) = None"
proof (intro conjI)
  show "fetch_news example_world 7 7 False =
     Inr [example_item ''Title B'' ''No date here.'' ''unknown'',
          example_item ''Title A'' ''Sentence one. Sentence two.'' ''2024-01-09T00:00:00+00:00'']"
    by (simp add: ex_fetch slice_to_def)
qed (simp_all add: example_item_def iso_eval example_feed_def entry_dt_def
      example_entry_def dict_get_def str_or_def parse_datetime_def example_world_def
      example_dtparse_def astimezone_utc_def dt_sub_def max_ticks_def)

section \<open>Deduplication by fingerprint\<close>

text \<open>
  C3. The result of \<open>fetch_news\<close> holds at most one item for every pair of normalized
  title and source, and the item it holds is the first one with that pair in the list
  \<open>all_news\<close>, which is in processing order.
\<close>

theorem fetch_news_dedup_first_wins:
  assumes "fetch_news w days limit use_g4f = Inr news"
    and "compute_cutoff (utcnow w) days = Inr cutoff"
  shows "distinct (map (\<lambda>n. (title n, source n)) news)
         \<and> (\<forall>n\<in>set news.
               find (\<lambda>m. title m = title n \<and> source m = source n)
                 (collect_news w cutoff use_g4f) = Some n)"
proof -
  let ?all = "collect_news w cutoff use_g4f"
  let ?unique = "dedup_loop (sha256_hexdigest w) ?all {} []"
  have news: "news = slice_to limit (sort_by_date_reverse ?unique)"
    using assms by (simp add: fetch_news_Inr)
  have "distinct (map (fingerprint (sha256_hexdigest w)) ?unique)"
    by (rule dedup_loop_distinct) simp_all
  then have "distinct (map (\<lambda>n. (title n, source n)) ?unique)"
    by (rule distinct_fingerprint_pair)
  then have "distinct (map (\<lambda>n. (title n, source n)) (sort_by_date_reverse ?unique))"
    by (simp only: distinct_map_sort_by_date_reverse)
  then have "distinct (map (\<lambda>n. (title n, source n))
                (slice_to limit (sort_by_date_reverse ?unique)))"
    by (rule distinct_map_slice_to)
  then have d: "distinct (map (\<lambda>n. (title n, source n)) news)"
    by (simp only: news)
  have "find (\<lambda>m. title m = title n \<and> source m = source n) ?all = Some n"
    if "n \<in> set news" for n
  proof -
    from that have "n \<in> set (slice_to limit (sort_by_date_reverse ?unique))"
      by (simp only: news)
    then have "n \<in> set (sort_by_date_reverse ?unique)"
      using set_slice_to[of limit "sort_by_date_reverse ?unique"] by (rule rev_subsetD)
    then have "n \<in> set ?unique" by (simp only: set_sort_by_date_reverse)
    from dedup_loop_first[OF this]
    have "find (\<lambda>m. fingerprint (sha256_hexdigest w) m = fingerprint (sha256_hexdigest w) n) ?all
            = Some n"
      by simp
    then show ?thesis by (rule find_fingerprint_pair)
  qed
  with d show ?thesis by blast
qed

theorem fetch_news_dedup_first_wins_witness:
  "fetch_news example_world 7 7 False =
     Inr [example_item ''Title B'' ''No date here.'' ''unknown'',
          example_item ''Title A'' ''Sentence one. Sentence two.'' ''2024-01-09T00:00:00+00:00'']
   \<and> compute_cutoff (utcnow example_world) 7 = Inr example_cutoff
   \<and> find (\<lambda>m. title m = ustr ''Title A'' \<and> source m = ustr ''Marketing Dive'')
         [example_item ''Title A'' ''Sentence one. Sentence two.'' ''2024-01-09T00:00:00+00:00'',
          example_item ''Title B'' ''No date here.'' ''unknown'',
          example_item ''Title A'' ''Seen before.'' ''2024-01-08T10:00:00+00:00'']
       = Some (example_item ''Title A'' ''Sentence one. Sentence two.'' ''2024-01-09T00:00:00+00:00'')"
  using fetch_news_dedup_first_wins [of example_world 7 7 False
      "[example_item ''Title B'' ''No date here.'' ''unknown'',
        example_item ''Title A'' ''Sentence one. Sentence two.'' ''2024-01-09T00:00:00+00:00'']"
      example_cutoff]
  by (simp add: ex_fetch slice_to_def ex_cutoff ex_collect) (simp add: example_item_def)

lemma collect_news_source:
  assumes "n \<in> set (collect_news w cutoff u)"
  shows "source n \<in> set (map fst (concat (map snd FEEDS)))"
proof -
  from collect_news_sound[OF assms] obtain c fs s url e k'
    where m: "(c, fs) \<in> set FEEDS" "(s, url) \<in> set fs"
      and p: "fst (process_entry w cutoff u c s e k') = Some n"
    by blast
  from process_entry_Some[OF p] have "source n = s" by simp
  moreover from m have "s \<in> set (map fst (concat (map snd FEEDS)))" by force
  ultimately show ?thesis by simp
qed

lemma feed_names_last_two:
  "distinct (map (\<lambda>s. take 2 (rev s)) (map fst (concat (map snd FEEDS))))"
  "\<forall>s\<in>set (map fst (concat (map snd FEEDS))). 2 \<le> length s"
  by (simp_all add: FEEDS_def)

lemma append_eq_last_two:
  assumes "t1 @ s1 = t2 @ s2" and "2 \<le> length s1" and "2 \<le> length s2"
  shows "take 2 (rev s1) = take 2 (rev s2)"
proof -
  from assms(1) have "rev s1 @ rev t1 = rev s2 @ rev t2"
    by (metis rev_append)
  then have "take 2 (rev s1 @ rev t1) = take 2 (rev s2 @ rev t2)" by simp
  with assms(2,3) show ?thesis by simp
qed

lemma feed_names_no_suffix:
  assumes "s1 \<in> set (map fst (concat (map snd FEEDS)))"
    and "s2 \<in> set (map fst (concat (map snd FEEDS)))"
    and "t1 @ s1 = t2 @ s2"
  shows "t1 = t2 \<and> s1 = s2"
proof -
  have "take 2 (rev s1) = take 2 (rev s2)"
    using assms feed_names_last_two(2) by (intro append_eq_last_two) auto
  moreover have "inj_on (\<lambda>s. take 2 (rev s)) (set (map fst (concat (map snd FEEDS))))"
    using feed_names_last_two(1) by (simp only: distinct_map)
  ultimately have "s1 = s2" using assms(1,2) by (auto dest: inj_onD)
  with assms(3) show ?thesis by simp
qed

lemma collect_news_concat_pair:
  assumes "a \<in> set (collect_news w cutoff u)" and "b \<in> set (collect_news w cutoff u)"
    and "title a @ source a = title b @ source b"
  shows "title a = title b \<and> source a = source b"
  using feed_names_no_suffix[OF collect_news_source[OF assms(1)] collect_news_source[OF assms(2)] assms(3)] .

lemma dedup_loop_mono: "set unique \<subseteq> set (dedup_loop sha ns seen unique)"
proof (induction ns arbitrary: seen unique)
  case Nil
  then show ?case by simp
next
  case (Cons x ns)
  show ?case
  proof (cases "fingerprint sha x \<in> seen")
    case True
    with Cons.IH[of unique seen] show ?thesis by simp
  next
    case False
    with Cons.IH[of "unique @ [x]" "insert (fingerprint sha x) seen"] show ?thesis by simp
  qed
qed

lemma dedup_loop_fingerprints:
  "fingerprint sha ` set (dedup_loop sha ns seen unique) \<union> seen
     = fingerprint sha ` set unique \<union> seen \<union> fingerprint sha ` set ns"
proof (induction ns arbitrary: seen unique)
  case Nil
  then show ?case by simp
next
  case (Cons x ns)
  show ?case
  proof (cases "fingerprint sha x \<in> seen")
    case True
    with Cons.IH[of seen unique] show ?thesis by auto
  next
    case False
    let ?R = "dedup_loop sha ns (insert (fingerprint sha x) seen) (unique @ [x])"
    have ih: "fingerprint sha ` set ?R \<union> insert (fingerprint sha x) seen
        = fingerprint sha ` set (unique @ [x]) \<union> insert (fingerprint sha x) seen
          \<union> fingerprint sha ` set ns"
      by (rule Cons.IH)
    have "x \<in> set ?R"
      using dedup_loop_mono[of "unique @ [x]" sha ns "insert (fingerprint sha x) seen"] by simp
    then have k: "fingerprint sha x \<in> fingerprint sha ` set ?R" by (rule imageI)
    have "fingerprint sha ` set ?R \<union> seen
        = fingerprint sha ` set ?R \<union> insert (fingerprint sha x) seen"
      using k by blast
    also have "\<dots> = fingerprint sha ` set unique \<union> seen \<union> fingerprint sha ` set (x # ns)"
      unfolding ih by auto
    finally show ?thesis using False by simp
  qed
qed

lemma dedup_loop_length:
  "length (dedup_loop sha ns seen unique) \<le> length unique + length ns"
proof (induction ns arbitrary: seen unique)
  case Nil
  then show ?case by simp
next
  case (Cons x ns)
  show ?case
  proof (cases "fingerprint sha x \<in> seen")
    case True
    with Cons.IH[of seen unique] show ?thesis by simp
  next
    case False
    with Cons.IH[of "insert (fingerprint sha x) seen" "unique @ [x]"] show ?thesis by simp
  qed
qed

lemma slice_to_all: "int (length xs) \<le> k \<Longrightarrow> slice_to k xs = xs"
  by (simp add: slice_to_def)

text \<open>
  C9 (as amended). The fingerprint is the digest of the title followed directly by the
  source. In \<open>fetch_news\<close> every source is a name of the table \<open>FEEDS\<close>, and no name
  there is a suffix of another: two items of \<open>all_news\<close> whose concatenations of title
  and source are equal have the same title and the same source. So the missing separator
  never merges two entries that are not duplicates: when the digest is injective on the
  concatenations of the run and the limit does not truncate, \<open>fetch_news\<close> returns an
  item for every (title, source) pair of \<open>all_news\<close>.
\<close>

theorem fetch_news_no_concatenation_collision:
  assumes "compute_cutoff (utcnow w) days = Inr cutoff"
  shows "(\<forall>a\<in>set (collect_news w cutoff use_g4f). \<forall>b\<in>set (collect_news w cutoff use_g4f).
            title a @ source a = title b @ source b \<longrightarrow>
            title a = title b \<and> source a = source b)
         \<and> (inj_on (sha256_hexdigest w)
               ((\<lambda>n. title n @ source n) ` set (collect_news w cutoff use_g4f))
             \<and> int (length (collect_news w cutoff use_g4f)) \<le> limit \<longrightarrow>
             (\<exists>news. fetch_news w days limit use_g4f = Inr news
                \<and> (\<lambda>n. (title n, source n)) ` set news
                    = (\<lambda>n. (title n, source n)) ` set (collect_news w cutoff use_g4f)))"
proof (rule conjI)
  show "\<forall>a\<in>set (collect_news w cutoff use_g4f). \<forall>b\<in>set (collect_news w cutoff use_g4f).
            title a @ source a = title b @ source b \<longrightarrow>
            title a = title b \<and> source a = source b"
    using collect_news_concat_pair by blast
next
  let ?all = "collect_news w cutoff use_g4f"
  let ?sha = "sha256_hexdigest w"
  let ?unique = "dedup_loop ?sha ?all {} []"
  show "inj_on ?sha ((\<lambda>n. title n @ source n) ` set ?all) \<and> int (length ?all) \<le> limit \<longrightarrow>
             (\<exists>news. fetch_news w days limit use_g4f = Inr news
                \<and> (\<lambda>n. (title n, source n)) ` set news
                    = (\<lambda>n. (title n, source n)) ` set ?all)"
  proof (rule impI)
  assume h: "inj_on ?sha ((\<lambda>n. title n @ source n) ` set ?all) \<and> int (length ?all) \<le> limit"
  have "length ?unique \<le> length ?all"
    using dedup_loop_length[of ?sha ?all "{}" "[]"] by simp
  then have "int (length (sort_by_date_reverse ?unique)) \<le> limit"
    using h by (simp add: sort_by_date_reverse_def)
  then have "slice_to limit (sort_by_date_reverse ?unique) = sort_by_date_reverse ?unique"
    by (rule slice_to_all)
  then have res: "fetch_news w days limit use_g4f = Inr (sort_by_date_reverse ?unique)"
    using assms by (simp add: fetch_news_Inr)
  have sub: "set ?unique \<subseteq> set ?all"
    using dedup_loop_subset[of ?sha ?all "{}" "[]"] by simp
  have fps: "fingerprint ?sha ` set ?unique = fingerprint ?sha ` set ?all"
    using dedup_loop_fingerprints[of ?sha ?all "{}" "[]"] by simp
  have "(\<lambda>n. (title n, source n)) ` set ?all \<subseteq> (\<lambda>n. (title n, source n)) ` set ?unique"
  proof
    fix p
    assume "p \<in> (\<lambda>n. (title n, source n)) ` set ?all"
    then obtain a where a: "a \<in> set ?all" "p = (title a, source a)" by blast
    then have "fingerprint ?sha a \<in> fingerprint ?sha ` set ?unique"
      using fps by blast
    then obtain k where k: "k \<in> set ?unique" "fingerprint ?sha k = fingerprint ?sha a"
      by force
    from k(1) sub have ka: "k \<in> set ?all" by blast
    from k(2) have "?sha (title k @ source k) = ?sha (title a @ source a)"
      by (simp add: fingerprint_def)
    with h ka a(1) have "title k @ source k = title a @ source a"
      by (auto dest: inj_onD)
    with ka a(1) have "title k = title a \<and> source k = source a"
      by (intro collect_news_concat_pair)
    with a(2) have "p = (\<lambda>n. (title n, source n)) k" by simp
    then show "p \<in> (\<lambda>n. (title n, source n)) ` set ?unique"
      using k(1) by (rule image_eqI)
  qed
  with sub have "(\<lambda>n. (title n, source n)) ` set ?unique = (\<lambda>n. (title n, source n)) ` set ?all"
    by blast
  then have "(\<lambda>n. (title n, source n)) ` set (sort_by_date_reverse ?unique)
      = (\<lambda>n. (title n, source n)) ` set ?all"
    by (simp only: set_sort_by_date_reverse)
  with res show "\<exists>news. fetch_news w days limit use_g4f = Inr news
                \<and> (\<lambda>n. (title n, source n)) ` set news
                    = (\<lambda>n. (title n, source n)) ` set ?all"
    by blast
  qed
qed

theorem fetch_news_no_concatenation_collision_witness:
  "compute_cutoff (utcnow example_world) 7 = Inr example_cutoff
   \<and> inj_on (sha256_hexdigest example_world)
        ((\<lambda>n. title n @ source n) ` set (collect_news example_world example_cutoff False))
   \<and> int (length (collect_news example_world example_cutoff False)) \<le> 7
   \<and> (\<exists>news. fetch_news example_world 7 7 False = Inr news
          \<and> (\<lambda>n. (title n, source n)) ` set news
              = (\<lambda>n. (title n, source n)) ` set (collect_news example_world example_cutoff False))"
proof -
  have i: "inj_on (sha256_hexdigest example_world)
        ((\<lambda>n. title n @ source n) ` set (collect_news example_world example_cutoff False))"
    by (simp add: example_world_def)
  have l: "int (length (collect_news example_world example_cutoff False)) \<le> 7"
    by (simp add: ex_collect)
  from fetch_news_no_concatenation_collision [OF ex_cutoff, of False 7] i l
  have "\<exists>news. fetch_news example_world 7 7 False = Inr news
          \<and> (\<lambda>n. (title n, source n)) ` set news
              = (\<lambda>n. (title n, source n)) ` set (collect_news example_world example_cutoff False)"
    by blast
  with ex_cutoff i l show ?thesis by blast
qed

text \<open>
  C9 as stated fails: no run of \<open>fetch_news\<close> has two entries with different
  (title, source) pairs and equal concatenations.
\<close>

theorem fetch_news_collision_counterexample:
  "\<not> (\<exists>w cutoff use_g4f a b.
         a \<in> set (collect_news w cutoff use_g4f) \<and> b \<in> set (collect_news w cutoff use_g4f)
         \<and> (title a, source a) \<noteq> (title b, source b)
         \<and> title a @ source a = title b @ source b)"
  using collect_news_concat_pair by blast

section \<open>The date parser\<close>

lemma parse_datetime_utc: "parse_datetime dtparse dt_str = Some u \<Longrightarrow> tzinfo u = Some 0"
  by (auto simp: parse_datetime_def astimezone_utc_def dt_sub_def Let_def
      split: if_splits sum.splits option.splits)

text \<open>
  C7 (as amended). \<open>parse_datetime\<close> is total: it returns \<open>None\<close> on the empty string, on
  a string the parser rejects, and on a string with a time zone whose conversion to UTC
  leaves the representable range; otherwise it returns a value in UTC, the wall-clock
  time unchanged when the string has no time zone and the same instant when it has one.
\<close>

theorem parse_datetime_total_utc:
  "(dt_str = [] \<longrightarrow> parse_datetime dtparse dt_str = None)
   \<and> (\<forall>e. dtparse dt_str = Inl e \<longrightarrow> parse_datetime dtparse dt_str = None)
   \<and> (\<forall>dt. dt_str \<noteq> [] \<and> dtparse dt_str = Inr dt \<and> tzinfo dt = None \<longrightarrow>
          parse_datetime dtparse dt_str = Some (dt\<lparr>tzinfo := Some 0\<rparr>))
   \<and> (\<forall>dt off. dt_str \<noteq> [] \<and> dtparse dt_str = Inr dt \<and> tzinfo dt = Some off \<longrightarrow>
          (if 0 \<le> ticks dt - off \<and> ticks dt - off \<le> max_ticks
           then \<exists>u. parse_datetime dtparse dt_str = Some u \<and> tzinfo u = Some 0
                    \<and> ticks u = ticks dt - off \<and> utc_instant u = utc_instant dt
           else parse_datetime dtparse dt_str = None))
   \<and> (\<forall>u. parse_datetime dtparse dt_str = Some u \<longrightarrow> tzinfo u = Some 0)"
proof (intro conjI allI impI)
  show "parse_datetime dtparse dt_str = None" if "dt_str = []"
    using that by (simp add: parse_datetime_def)
  show "parse_datetime dtparse dt_str = None" if "dtparse dt_str = Inl e" for e
    using that by (simp add: parse_datetime_def)
  show "parse_datetime dtparse dt_str = Some (dt\<lparr>tzinfo := Some 0\<rparr>)"
    if "dt_str \<noteq> [] \<and> dtparse dt_str = Inr dt \<and> tzinfo dt = None" for dt
    using that by (simp add: parse_datetime_def)
  show "if 0 \<le> ticks dt - off \<and> ticks dt - off \<le> max_ticks
        then \<exists>u. parse_datetime dtparse dt_str = Some u \<and> tzinfo u = Some 0
                 \<and> ticks u = ticks dt - off \<and> utc_instant u = utc_instant dt
        else parse_datetime dtparse dt_str = None"
    if "dt_str \<noteq> [] \<and> dtparse dt_str = Inr dt \<and> tzinfo dt = Some off" for dt off
    using that
    by (simp add: parse_datetime_def astimezone_utc_def dt_sub_def Let_def utc_instant_def)
  show "tzinfo u = Some 0" if "parse_datetime dtparse dt_str = Some u" for u
    using that by (rule parse_datetime_utc)
qed

theorem parse_datetime_total_utc_witness:
  "parse_datetime example_dtparse [] = None
   \<and> parse_datetime example_dtparse (ustr ''some day'') = None
   \<and> parse_datetime example_dtparse (ustr ''2024-01-08 10:00'')
       = Some \<lparr>ticks = 738892 * 86400000000 + 36000000000, tzinfo = Some 0\<rparr>
   \<and> (\<exists>u. parse_datetime example_dtparse (ustr ''2024-01-08T12:00:00+02:00'') = Some u
          \<and> tzinfo u = Some 0 \<and> ticks u = 738892 * 86400000000 + 36000000000)"
proof (intro conjI)
  show "parse_datetime example_dtparse [] = None"
    using parse_datetime_total_utc [of "[]" example_dtparse] by simp
  have "example_dtparse (ustr ''some day'') = Inl ParserError"
    by (simp add: example_dtparse_def)
  then show "parse_datetime example_dtparse (ustr ''some day'') = None"
    using parse_datetime_total_utc [of "ustr ''some day''" example_dtparse] by blast
  have "ustr ''2024-01-08 10:00'' \<noteq> [] \<and> example_dtparse (ustr ''2024-01-08 10:00'')
     = Inr \<lparr>ticks = 738892 * 86400000000 + 36000000000, tzinfo = None\<rparr>
     \<and> tzinfo \<lparr>ticks = 738892 * 86400000000 + 36000000000, tzinfo = None\<rparr> = None"
    by (simp add: example_dtparse_def)
  then have "parse_datetime example_dtparse (ustr ''2024-01-08 10:00'')
       = Some (\<lparr>ticks = 738892 * 86400000000 + 36000000000, tzinfo = None\<rparr>\<lparr>tzinfo := Some 0\<rparr>)"
    using parse_datetime_total_utc [of "ustr ''2024-01-08 10:00''" example_dtparse] by blast
  then show "parse_datetime example_dtparse (ustr ''2024-01-08 10:00'')
       = Some \<lparr>ticks = 738892 * 86400000000 + 36000000000, tzinfo = Some 0\<rparr>"
    by simp
  let ?dt = "\<lparr>ticks = 738892 * 86400000000 + 43200000000, tzinfo = Some 7200000000\<rparr>"
  have h: "ustr ''2024-01-08T12:00:00+02:00'' \<noteq> []
     \<and> example_dtparse (ustr ''2024-01-08T12:00:00+02:00'') = Inr ?dt
     \<and> tzinfo ?dt = Some 7200000000"
    by (simp add: example_dtparse_def)
  have r: "0 \<le> ticks ?dt - 7200000000 \<and> ticks ?dt - 7200000000 \<le> max_ticks"
    by (simp add: max_ticks_def)
  from parse_datetime_total_utc [of "ustr ''2024-01-08T12:00:00+02:00''" example_dtparse]
  have "\<forall>dt off. ustr ''2024-01-08T12:00:00+02:00'' \<noteq> []
          \<and> example_dtparse (ustr ''2024-01-08T12:00:00+02:00'') = Inr dt \<and> tzinfo dt = Some off \<longrightarrow>
          (if 0 \<le> ticks dt - off \<and> ticks dt - off \<le> max_ticks
           then \<exists>u. parse_datetime example_dtparse (ustr ''2024-01-08T12:00:00+02:00'') = Some u
                    \<and> tzinfo u = Some 0
                    \<and> ticks u = ticks dt - off \<and> utc_instant u = utc_instant dt
           else parse_datetime example_dtparse (ustr ''2024-01-08T12:00:00+02:00'') = None)"
    by (elim conjE)
  from this[rule_format, OF h] r
  have "\<exists>u. parse_datetime example_dtparse (ustr ''2024-01-08T12:00:00+02:00'') = Some u
          \<and> tzinfo u = Some 0 \<and> ticks u = ticks ?dt - 7200000000 \<and> utc_instant u = utc_instant ?dt"
    by (simp only: if_True)
  then show "\<exists>u. parse_datetime example_dtparse (ustr ''2024-01-08T12:00:00+02:00'') = Some u
          \<and> tzinfo u = Some 0 \<and> ticks u = 738892 * 86400000000 + 36000000000"
    by auto
qed

text \<open>
  C7 as stated fails: the date parser accepts the string below, the conversion of year 1
  at offset +05:00 to UTC raises \<open>OverflowError\<close>, and \<open>parse_datetime\<close> returns \<open>None\<close>
  for a string that parses.
\<close>

theorem parse_datetime_overflow_counterexample:
  "example_dtparse (ustr ''0001-01-01T00:00:00+05:00'')
     = Inr \<lparr>ticks = 0, tzinfo = Some 18000000000\<rparr>
   \<and> astimezone_utc \<lparr>ticks = 0, tzinfo = Some 18000000000\<rparr> 18000000000 = Inl OverflowError
   \<and> parse_datetime example_dtparse (ustr ''0001-01-01T00:00:00+05:00'') = None"
  by (simp add: example_dtparse_def parse_datetime_def astimezone_utc_def dt_sub_def)

section \<open>The recency filter\<close>

lemma compute_cutoff_instant:
  assumes "compute_cutoff now days = Inr cutoff"
  shows "tzinfo cutoff = Some 0 \<and> utc_instant cutoff = now - days * 86400000000"
proof -
  from assms obtain delta where d: "timedelta_days days = Inr delta"
    and s: "dt_sub \<lparr>ticks = now, tzinfo = Some 0\<rparr> delta = Inr cutoff"
    by (cases "timedelta_days days") (simp_all add: compute_cutoff_def)
  from d have delta: "delta = days * 86400000000"
    by (simp add: timedelta_days_def split: if_splits)
  from s have "cutoff = \<lparr>ticks = now - delta, tzinfo = Some 0\<rparr>"
    by (simp add: dt_sub_def Let_def split: if_splits)
  with delta show ?thesis by (simp add: utc_instant_def)
qed

lemma entry_dt_instant: "entry_dt w entry = Some d \<Longrightarrow> utc_instant d = ticks d"
  using parse_datetime_utc[of "dtparser_parse w" _ d]
  by (auto simp: entry_dt_def utc_instant_def)

text \<open>
  C2. An entry that reaches the recency filter (its normalized title is not empty) is
  skipped if and only if its date parses and the parsed instant is strictly before
  \<open>cutoff = now - days\<close>. An entry whose date does not parse is kept with the date
  \<open>unknown\<close>, and \<open>all_news\<close> holds an item for it.
\<close>

theorem recency_filter:
  assumes "compute_cutoff (utcnow w) days = Inr cutoff"
    and "entry_title w entry \<noteq> []"
  shows "(fst (process_entry w cutoff use_g4f c s entry calls) = None \<longleftrightarrow>
            (\<exists>d. entry_dt w entry = Some d
                 \<and> utc_instant d < utcnow w - days * 86400000000))
         \<and> (entry_dt w entry = None \<longrightarrow>
              (\<exists>n. fst (process_entry w cutoff use_g4f c s entry calls) = Some n
                   \<and> date n = ustr ''unknown''))
         \<and> (entry_dt w entry = None \<and> (c, fs) \<in> set FEEDS \<and> (s, url) \<in> set fs
              \<and> entry \<in> set (feedparser_parse w url) \<longrightarrow>
              (\<exists>n\<in>set (collect_news w cutoff use_g4f).
                  title n = entry_title w entry \<and> source n = s \<and> category n = c
                  \<and> date n = ustr ''unknown''))"
proof (intro conjI impI)
  have cut: "utc_instant cutoff = utcnow w - days * 86400000000"
    using compute_cutoff_instant[OF assms(1)] by simp
  show "fst (process_entry w cutoff use_g4f c s entry calls) = None \<longleftrightarrow>
            (\<exists>d. entry_dt w entry = Some d \<and> utc_instant d < utcnow w - days * 86400000000)"
    using assms(2) by (simp add: process_entry_None_iff dt_less_def cut)
next
  assume none: "entry_dt w entry = None"
  then have "fst (process_entry w cutoff use_g4f c s entry calls) \<noteq> None"
    using assms(2) by (simp add: process_entry_None_iff)
  then obtain n where n: "fst (process_entry w cutoff use_g4f c s entry calls) = Some n"
    by auto
  from process_entry_Some[OF n] none have "date n = ustr ''unknown''" by simp
  with n show "\<exists>n. fst (process_entry w cutoff use_g4f c s entry calls) = Some n
                   \<and> date n = ustr ''unknown''"
    by blast
next
  assume h: "entry_dt w entry = None \<and> (c, fs) \<in> set FEEDS \<and> (s, url) \<in> set fs
              \<and> entry \<in> set (feedparser_parse w url)"
  then have "fst (process_entry w cutoff use_g4f c s entry 0) \<noteq> None"
    using assms(2) by (simp add: process_entry_None_iff)
  with h obtain k' n where kn: "fst (process_entry w cutoff use_g4f c s entry k') = Some n"
      "n \<in> set (collect_news w cutoff use_g4f)"
    using collect_news_complete[of c fs s url entry w cutoff use_g4f 0] by blast
  from process_entry_Some[OF kn(1)] h
  have "title n = entry_title w entry \<and> source n = s \<and> category n = c
        \<and> date n = ustr ''unknown''"
    by simp
  with kn(2) show "\<exists>n\<in>set (collect_news w cutoff use_g4f).
                  title n = entry_title w entry \<and> source n = s \<and> category n = c
                  \<and> date n = ustr ''unknown''"
    by blast
qed

theorem recency_filter_witness:
  "compute_cutoff (utcnow example_world) 7 = Inr example_cutoff
   \<and> entry_title example_world (example_feed ! 1) \<noteq> []
   \<and> entry_dt example_world (example_feed ! 1) = None
   \<and> (\<exists>n. fst (process_entry example_world example_cutoff False [] (ustr ''Marketing Dive'')
                  (example_feed ! 1) 0) = Some n \<and> date n = ustr ''unknown'')
   \<and> entry_title example_world (example_feed ! 2) \<noteq> []
   \<and> entry_dt example_world (example_feed ! 2)
       = Some \<lparr>ticks = 738854 * 86400000000, tzinfo = Some 0\<rparr>
   \<and> fst (process_entry example_world example_cutoff False [] (ustr ''Marketing Dive'')
            (example_feed ! 2) 0) = None"
proof -
  have t1: "entry_title example_world (example_feed ! 1) \<noteq> []"
    by (simp add: example_feed_def entry_eval)
  have d1: "entry_dt example_world (example_feed ! 1) = None"
    by (simp add: example_feed_def entry_eval)
  have t2: "entry_title example_world (example_feed ! 2) \<noteq> []"
    by (simp add: example_feed_def entry_eval)
  have d2: "entry_dt example_world (example_feed ! 2)
       = Some \<lparr>ticks = 738854 * 86400000000, tzinfo = Some 0\<rparr>"
    by (simp add: example_feed_def entry_eval)
  have old: "utc_instant \<lparr>ticks = 738854 * 86400000000, tzinfo = Some 0\<rparr>
       < utcnow example_world - 7 * 86400000000"
    by (simp add: utc_instant_def example_world_def)
  from recency_filter [OF ex_cutoff t1, of False "[]" "ustr ''Marketing Dive''" 0] d1
  have r1: "\<exists>n. fst (process_entry example_world example_cutoff False [] (ustr ''Marketing Dive'')
                  (example_feed ! 1) 0) = Some n \<and> date n = ustr ''unknown''"
    by blast
  from recency_filter [OF ex_cutoff t2, of False "[]" "ustr ''Marketing Dive''" 0] d2 old
  have r2: "fst (process_entry example_world example_cutoff False [] (ustr ''Marketing Dive'')
            (example_feed ! 2) 0) = None"
    by blast
  from ex_cutoff t1 d1 r1 t2 d2 r2 show ?thesis by blast
qed

section \<open>The external summarizer and its fallback\<close>

lemma summarize_with_g4f_fails:
  "(\<forall>g. imp = Inr g \<longrightarrow> (\<exists>e. g (user_prompt text) = Inl e)) \<Longrightarrow>
   summarize_with_g4f imp text = summarize_naive_default text"
  by (cases imp) (auto simp: summarize_with_g4f_def)

lemma process_entry_fallback:
  assumes "\<forall>i g. import_g4f w i = Inr g \<longrightarrow> (\<forall>p. \<exists>e. g p = Inl e)"
  shows "fst (process_entry w cutoff True c s e k) = fst (process_entry w cutoff False c s e k')"
proof -
  have "summarize_with_g4f (import_g4f w k) (entry_desc w e) = summarize_naive_default (entry_desc w e)"
    using assms by (intro summarize_with_g4f_fails) blast
  then show ?thesis
    by (simp add: process_entry_def Let_def)
qed

lemma entries_loop_fallback:
  assumes "\<forall>i g. import_g4f w i = Inr g \<longrightarrow> (\<forall>p. \<exists>e. g p = Inl e)"
  shows "fst (entries_loop w cutoff True c s es (acc, k))
       = fst (entries_loop w cutoff False c s es (acc, k'))"
proof (induction es arbitrary: acc k k')
  case Nil
  then show ?case by simp
next
  case (Cons e es)
  obtain r k1 where p1: "process_entry w cutoff True c s e k = (r, k1)"
    by (cases "process_entry w cutoff True c s e k")
  obtain r' k2 where p2: "process_entry w cutoff False c s e k' = (r', k2)"
    by (cases "process_entry w cutoff False c s e k'")
  from process_entry_fallback[OF assms, of cutoff c s e k k'] p1 p2 have "r = r'" by simp
  with p1 p2 Cons.IH show ?case by (cases r') simp_all
qed

lemma feeds_loop_fallback:
  assumes "\<forall>i g. import_g4f w i = Inr g \<longrightarrow> (\<forall>p. \<exists>e. g p = Inl e)"
    and "fst st = fst st'"
  shows "fst (feeds_loop w cutoff True c fs st) = fst (feeds_loop w cutoff False c fs st')"
  using assms(2)
proof (induction fs arbitrary: st st')
  case Nil
  then show ?case by simp
next
  case (Cons f fs)
  obtain s url where f: "f = (s, url)" by (cases f)
  obtain acc k where st: "st = (acc, k)" by (cases st)
  obtain acc' k' where st': "st' = (acc', k')" by (cases st')
  from Cons.prems st st' have "acc' = acc" by simp
  then have "fst (entries_loop w cutoff True c s (feedparser_parse w url) st)
           = fst (entries_loop w cutoff False c s (feedparser_parse w url) st')"
    using entries_loop_fallback[OF assms(1)] st st' by simp
  from Cons.IH[OF this] f show ?case by simp
qed

lemma categories_loop_fallback:
  assumes "\<forall>i g. import_g4f w i = Inr g \<longrightarrow> (\<forall>p. \<exists>e. g p = Inl e)"
    and "fst st = fst st'"
  shows "fst (categories_loop w cutoff True cs st) = fst (categories_loop w cutoff False cs st')"
  using assms(2)
proof (induction cs arbitrary: st st')
  case Nil
  then show ?case by simp
next
  case (Cons x cs)
  obtain c fs where x: "x = (c, fs)" by (cases x)
  have "fst (feeds_loop w cutoff True c fs st) = fst (feeds_loop w cutoff False c fs st')"
    using assms(1) Cons.prems by (rule feeds_loop_fallback)
  from Cons.IH[OF this] x show ?case by simp
qed

lemma collect_news_naive_summary:
  assumes "n \<in> set (collect_news w cutoff False)"
  shows "\<exists>(c, fs)\<in>set FEEDS. \<exists>(s, url)\<in>set fs. \<exists>e\<in>set (feedparser_parse w url).
           title n = entry_title w e \<and> source n = s
           \<and> summary n = summarize_naive_default (entry_desc w e)"
proof -
  from collect_news_sound[OF assms] obtain c fs s url e k'
    where m: "(c, fs) \<in> set FEEDS" "(s, url) \<in> set fs" "e \<in> set (feedparser_parse w url)"
      and p: "fst (process_entry w cutoff False c s e k') = Some n"
    by blast
  from process_entry_Some[OF p]
  have "title n = entry_title w e \<and> source n = s
        \<and> summary n = summarize_naive_default (entry_desc w e)"
    by simp
  with m show ?thesis by blast
qed

text \<open>
  C6. When importing the library fails, or the call to the service raises,
  \<open>summarize_with_g4f\<close> returns what the naive summarizer returns on the same text; it
  returns a string in every case. When the service fails at every call, \<open>fetch_news\<close>
  with the external summarizer returns what it returns with the naive one, and every
  summary in \<open>all_news\<close> is the naive summary of the description of its entry.
\<close>

theorem summarize_with_g4f_fallback:
  "summarize_with_g4f (Inl e) text = summarize_naive_default text
   \<and> (g (user_prompt text) = Inl e' \<longrightarrow>
        summarize_with_g4f (Inr g) text = summarize_naive_default text)
   \<and> ((\<forall>i g. import_g4f w i = Inr g \<longrightarrow> (\<forall>p. \<exists>e. g p = Inl e)) \<longrightarrow>
        collect_news w cutoff True = collect_news w cutoff False
        \<and> fetch_news w days limit True = fetch_news w days limit False
        \<and> (\<forall>n\<in>set (collect_news w cutoff True).
              \<exists>(c, fs)\<in>set FEEDS. \<exists>(s, url)\<in>set fs. \<exists>entry\<in>set (feedparser_parse w url).
                 title n = entry_title w entry \<and> source n = s
                 \<and> summary n = summarize_naive_default (entry_desc w entry)))"
proof (intro conjI impI)
  show "summarize_with_g4f (Inl e) text = summarize_naive_default text"
    by (simp add: summarize_with_g4f_def)
  show "summarize_with_g4f (Inr g) text = summarize_naive_default text"
    if "g (user_prompt text) = Inl e'"
    using that by (simp add: summarize_with_g4f_def)
next
  assume fails: "\<forall>i g. import_g4f w i = Inr g \<longrightarrow> (\<forall>p. \<exists>e. g p = Inl e)"
  have eq: "collect_news w c True = collect_news w c False" for c
    unfolding collect_news_def using fails by (rule categories_loop_fallback) simp
  from eq show "collect_news w cutoff True = collect_news w cutoff False" .
  show "fetch_news w days limit True = fetch_news w days limit False"
    by (cases "compute_cutoff (utcnow w) days") (simp_all add: fetch_news_def eq)
  show "\<forall>n\<in>set (collect_news w cutoff True).
              \<exists>(c, fs)\<in>set FEEDS. \<exists>(s, url)\<in>set fs. \<exists>entry\<in>set (feedparser_parse w url).
                 title n = entry_title w entry \<and> source n = s
                 \<and> summary n = summarize_naive_default (entry_desc w entry)"
    unfolding eq using collect_news_naive_summary by blast
qed

lemma ex_summary:
  "summarize_naive_default (ustr ''Sentence one. Sentence two. Sentence three.'')
     = ustr ''Sentence one. Sentence two.''"
  by (simp add: summarize_naive_default_def summarize_naive_def slice_to_def isspace_def
      is_terminal_def Let_def)

theorem summarize_with_g4f_fallback_witness:
  "summarize_with_g4f (Inl ImportError) (ustr ''Sentence one. Sentence two. Sentence three.'')
     = ustr ''Sentence one. Sentence two.''
   \<and> summarize_with_g4f (Inr (\<lambda>p. Inl ServiceError))
        (ustr ''Sentence one. Sentence two. Sentence three.'')
     = ustr ''Sentence one. Sentence two.''
   \<and> fetch_news example_world 7 7 True =
       Inr [example_item ''Title B'' ''No date here.'' ''unknown'',
            example_item ''Title A'' ''Sentence one. Sentence two.'' ''2024-01-09T00:00:00+00:00'']"
proof -
  have f: "\<forall>i g. import_g4f example_world i = Inr g \<longrightarrow> (\<forall>p. \<exists>e. g p = Inl e)"
    by (simp add: example_world_def)
  have g: "(\<lambda>p. Inl ServiceError :: exception + pystr)
             (user_prompt (ustr ''Sentence one. Sentence two. Sentence three.'')) = Inl ServiceError"
    by simp
  from summarize_with_g4f_fallback [of ImportError
      "ustr ''Sentence one. Sentence two. Sentence three.''" "\<lambda>p. Inl ServiceError" ServiceError
      example_world example_cutoff 7 7] f g
  have "summarize_with_g4f (Inl ImportError) (ustr ''Sentence one. Sentence two. Sentence three.'')
          = summarize_naive_default (ustr ''Sentence one. Sentence two. Sentence three.'')
      \<and> summarize_with_g4f (Inr (\<lambda>p. Inl ServiceError))
          (ustr ''Sentence one. Sentence two. Sentence three.'')
          = summarize_naive_default (ustr ''Sentence one. Sentence two. Sentence three.'')
      \<and> fetch_news example_world 7 7 True = fetch_news example_world 7 7 False"
    by blast
  then show ?thesis
    by (simp only: ex_summary ex_fetch) (simp add: slice_to_def)
qed

section \<open>The text normalizer\<close>





















end
